theory Spec2Isabelle
  imports Complex_Main "HOL-Library.AList"
begin

section \<open>Values of the host language\<close>

text \<open>
  A JavaScript \<open>number\<close>. Finite values are kept as exact rationals; the two infinities
  and NaN are values of their own. Equality of this datatype is the key comparison of a
  JavaScript \<open>Map\<close> (SameValueZero): NaN equals NaN and there is a single zero.
\<close>

datatype number = Finite rat | PosInfinity | NegInfinity | NaN

text \<open>
  \<open>x + 1\<close> as the postfix \<open>++\<close> computes it on a counter that starts at 1. The counter is
  a double: on the integers below \<open>2 ^ 53\<close> the sum is exact, and at \<open>2 ^ 53\<close> the sum
  \<open>2 ^ 53 + 1\<close> is rounded back to \<open>2 ^ 53\<close>, so the counter stays there. These are the
  only values the counter takes.
\<close>

fun plus_one :: "number \<Rightarrow> number" where
  "plus_one (Finite r) = (if r < 2 ^ 53 then Finite (r + 1) else Finite r)"
| "plus_one PosInfinity = PosInfinity"
| "plus_one NegInfinity = NegInfinity"
| "plus_one NaN = NaN"

text \<open>The comparison \<open>a < b\<close> of two numbers; every comparison with NaN is false.\<close>

fun less_number :: "number \<Rightarrow> number \<Rightarrow> bool" where
  "less_number (Finite a) (Finite b) = (a < b)"
| "less_number (Finite a) PosInfinity = True"
| "less_number NegInfinity (Finite b) = True"
| "less_number NegInfinity PosInfinity = True"
| "less_number _ _ = False"

text \<open>\<open>Number.isInteger\<close>: a finite number without fractional part.\<close>

fun is_integer :: "number \<Rightarrow> bool" where
  "is_integer (Finite r) = (of_int \<lfloor>r\<rfloor> = r)"
| "is_integer _ = False"

text \<open>
  A value produced by \<open>JSON.parse\<close>. An object is the list of its own properties in
  insertion order; \<open>None\<close> of type \<open>json option\<close> stands for \<open>undefined\<close>.
\<close>

datatype json =
    JNull
  | JBool bool
  | JNumber number
  | JString string
  | JArray "json list"
  | JObject "(string \<times> json) list"

text \<open>The \<open>typeof\<close> operator.\<close>

fun typeof :: "json option \<Rightarrow> string" where
  "typeof None = ''undefined''"
| "typeof (Some JNull) = ''object''"
| "typeof (Some (JBool b)) = ''boolean''"
| "typeof (Some (JNumber n)) = ''number''"
| "typeof (Some (JString s)) = ''string''"
| "typeof (Some (JArray xs)) = ''object''"
| "typeof (Some (JObject kvs)) = ''object''"

text \<open>
  Property access \<open>value.key\<close> for the four property names the server reads
  (\<open>type\<close>, \<open>channelId\<close>, \<open>userName\<close>, \<open>text\<close>): an object yields its own property,
  every other parsed value (an array included) yields \<open>undefined\<close>.
\<close>

fun property :: "json \<Rightarrow> string \<Rightarrow> json option" where
  "property (JObject kvs) key = map_of kvs key"
| "property _ key = None"

section \<open>The data model of \<open>src/index.ts\<close>\<close>

text \<open>
  A string is the list of its characters, so that \<open>length\<close> is the \<open>length\<close> property.
  The interfaces \<open>Message\<close> and \<open>Channel\<close> become records; the fields \<open>text\<close> and \<open>id\<close>
  are primed because Isabelle reserves these two words.
\<close>

record Message =
  userName :: string
  text' :: string

record Channel =
  id' :: number
  name :: string
  messages :: "Message list"

text \<open>
  The class \<open>Channels\<close>: the \<open>Map\<close> from identifier to channel, as an association list in
  insertion order, and the counter.
\<close>

record Channels =
  channels :: "(number \<times> Channel) list"
  nextChannelId :: number

text \<open>
  One constructor for each \<open>throw new Error(...)\<close> of the source, in the order of the
  source: an empty name, a name of more than 15 characters, a name outside the pattern, a
  name already in use, an unknown channel, and the two failures of \<open>assertChannelName\<close>;
  the last one is the third failure of \<open>assertChannelName\<close> in the earlier server.
\<close>

datatype error =
    NameEmpty
  | NameTooLong
  | NameNotAlphanumeric
  | NameInUse
  | ChannelMissing
  | NameParameterMissing
  | NameParameterNotString
  | NameParameterEmpty

section \<open>The class \<open>Channels\<close>\<close>

text \<open>The character class \<open>[A-Za-z0-9_-]\<close> of the pattern \<open>/^[A-Za-z0-9_-]*$/\<close>.\<close>

definition in_class :: "char \<Rightarrow> bool" where
  "in_class c =
     (let n = (of_char c :: nat)
      in (65 \<le> n \<and> n \<le> 90) \<or> (97 \<le> n \<and> n \<le> 122) \<or> (48 \<le> n \<and> n \<le> 57)
         \<or> c = CHR ''_'' \<or> c = CHR ''-'')"

definition matches_pattern :: "string \<Rightarrow> bool" where
  "matches_pattern nm = list_all in_class nm"

definition validateChannelName :: "Channels \<Rightarrow> string \<Rightarrow> error + unit" where
  "validateChannelName s nm =
     (if length nm = 0 then Inl NameEmpty
      else if length nm > 15 then Inl NameTooLong
      else if \<not> matches_pattern nm then Inl NameNotAlphanumeric
      else if list_ex (\<lambda>channel. name channel = nm) (map snd (channels s)) then Inl NameInUse
      else Inr ())"

definition issueNextChannelId :: "Channels \<Rightarrow> number \<times> Channels" where
  "issueNextChannelId s =
     (nextChannelId s, s\<lparr>nextChannelId := plus_one (nextChannelId s)\<rparr>)"

text \<open>
  Every method returns its result, or the error it throws, together with the registry
  after the call.
\<close>

definition create :: "Channels \<Rightarrow> string \<Rightarrow> (error + Channel) \<times> Channels" where
  "create s nm =
     (case validateChannelName s nm of
        Inl e \<Rightarrow> (Inl e, s)
      | Inr _ \<Rightarrow>
          (let (i, s1) = issueNextChannelId s;
               channel = \<lparr>id' = i, name = nm, messages = []\<rparr>
           in (Inr channel,
               s1\<lparr>channels := AList.update (id' channel) channel (channels s1)\<rparr>)))"

definition getChannel :: "Channels \<Rightarrow> number \<Rightarrow> Channel option" where
  "getChannel s i = map_of (channels s) i"

definition changeName :: "Channels \<Rightarrow> number \<Rightarrow> string \<Rightarrow> (error + Channel) \<times> Channels" where
  "changeName s i nm =
     (case map_of (channels s) i of
        None \<Rightarrow> (Inl ChannelMissing, s)
      | Some channel \<Rightarrow>
          (case validateChannelName s nm of
             Inl e \<Rightarrow> (Inl e, s)
           | Inr _ \<Rightarrow>
               (let newChannel = channel\<lparr>name := nm\<rparr>
                in (Inr newChannel,
                    s\<lparr>channels := AList.update i newChannel (channels s)\<rparr>))))"

definition getAllChannels :: "Channels \<Rightarrow> Channel list" where
  "getAllChannels s = map snd (channels s)"

definition deleteChannel :: "Channels \<Rightarrow> number \<Rightarrow> (error + unit) \<times> Channels" where
  "deleteChannel s i = (Inr (), s\<lparr>channels := AList.delete i (channels s)\<rparr>)"

text \<open>\<open>new Channels()\<close>, and the registry after the two calls that seed it.\<close>

definition fresh :: Channels where
  "fresh = \<lparr>channels = [], nextChannelId = Finite 1\<rparr>"

definition seeded :: Channels where
  "seeded = snd (create (snd (create fresh ''general'')) ''random'')"

section \<open>The HTTP routes of \<open>src/index.ts\<close>\<close>

text \<open>
  What a route leaves in the context: a body (status 200), or the status and message of
  \<open>ctx.throw\<close>. The message is that of a caught error (\<open>Inl\<close>) or a literal of the
  route (\<open>Inr\<close>).
\<close>

datatype body = EmptyBody | ChannelBody Channel | ChannelsBody "Channel list"

datatype response = Ok body | Throw nat "error + string"

text \<open>
  \<open>assertChannelName\<close> narrows the \<open>name\<close> property of the request body, which may be
  \<open>undefined\<close> or any parsed value, to a string.
\<close>

fun assertChannelName :: "json option \<Rightarrow> error + string" where
  "assertChannelName None = Inl NameParameterMissing"
| "assertChannelName (Some (JString nm)) = Inr nm"
| "assertChannelName (Some v) = Inl NameParameterNotString"

definition post_channels :: "Channels \<Rightarrow> json option \<Rightarrow> response \<times> Channels" where
  "post_channels s name_param =
     (case assertChannelName name_param of
        Inl e \<Rightarrow> (Throw 400 (Inl e), s)
      | Inr nm \<Rightarrow>
          (case create s nm of
             (Inl e, s') \<Rightarrow> (Throw 400 (Inl e), s')
           | (Inr channel, s') \<Rightarrow> (Ok (ChannelBody channel), s')))"

definition get_channels :: "Channels \<Rightarrow> response \<times> Channels" where
  "get_channels s = (Ok (ChannelsBody (getAllChannels s)), s)"

text \<open>
  The two routes with an \<open>:id\<close> segment convert it with \<open>Number\<close>, a function of the
  language taken as the parameter \<open>to_number\<close>.
\<close>

definition patch_channels ::
  "(string \<Rightarrow> number) \<Rightarrow> Channels \<Rightarrow> string \<Rightarrow> json option \<Rightarrow> response \<times> Channels" where
  "patch_channels to_number s idString name_param =
     (let i = to_number idString
      in case getChannel s i of
           None \<Rightarrow> (Throw 404 (Inr ''Channel not found''), s)
         | Some channel \<Rightarrow>
             (case assertChannelName name_param of
                Inl e \<Rightarrow> (Throw 400 (Inl e), s)
              | Inr newName \<Rightarrow>
                  (case changeName s i newName of
                     (Inl e, s') \<Rightarrow> (Throw 400 (Inl e), s')
                   | (Inr newChannel, s') \<Rightarrow> (Ok (ChannelBody newChannel), s'))))"

definition delete_channels ::
  "(string \<Rightarrow> number) \<Rightarrow> Channels \<Rightarrow> string \<Rightarrow> response \<times> Channels" where
  "delete_channels to_number s idString =
     (let i = to_number idString
      in case getChannel s i of
           None \<Rightarrow> (Throw 404 (Inr ''Channel not found''), s)
         | Some channel \<Rightarrow> (Ok EmptyBody, snd (deleteChannel s i)))"

section \<open>The message route of \<open>src/index.ts\<close>\<close>

definition isNewMessage :: "json \<Rightarrow> bool" where
  "isNewMessage v =
     (typeof (Some v) = ''object'' \<and>
      v \<noteq> JNull \<and>
      property v ''type'' = Some (JString ''message'') \<and>
      typeof (property v ''channelId'') = ''number'' \<and>
      typeof (property v ''userName'') = ''string'' \<and>
      typeof (property v ''text'') = ''string'')"

text \<open>
  The fields of a value that passed \<open>isNewMessage\<close>. The guard makes \<open>channelId\<close> a
  number and the other two strings; the last case of each reader is never taken after it.
\<close>

definition channelId_of :: "json \<Rightarrow> number" where
  "channelId_of v = (case property v ''channelId'' of Some (JNumber n) \<Rightarrow> n | _ \<Rightarrow> NaN)"

definition userName_of :: "json \<Rightarrow> string" where
  "userName_of v = (case property v ''userName'' of Some (JString u) \<Rightarrow> u | _ \<Rightarrow> [])"

definition text_of :: "json \<Rightarrow> string" where
  "text_of v = (case property v ''text'' of Some (JString t) \<Rightarrow> t | _ \<Rightarrow> [])"

text \<open>The object \<open>{ type: 'error', message }\<close> that is serialised for the sender.\<close>

definition error_object :: "string \<Rightarrow> json" where
  "error_object m = JObject [(''type'', JString ''error''), (''message'', JString m)]"

text \<open>
  \<open>channel.messages.push(m)\<close> on the channel that \<open>getChannel\<close> returned for \<open>i\<close>: the
  array of the stored record grows, the record keeps its place in the map.
\<close>

definition push :: "Channels \<Rightarrow> number \<Rightarrow> Channel \<Rightarrow> Message \<Rightarrow> Channels" where
  "push s i channel m =
     s\<lparr>channels := AList.update i (channel\<lparr>messages := messages channel @ [m]\<rparr>) (channels s)\<rparr>"

text \<open>
  The listener for one text frame \<open>rawData\<close> on the socket \<open>ws\<close>. \<open>JSON.parse\<close> and
  \<open>JSON.stringify\<close> are the parameters \<open>parse\<close> (\<open>Inl\<close> carries the message of the syntax
  error) and \<open>stringify\<close>; \<open>clients\<close> lists the sockets of the server's client set in the
  order \<open>forEach\<close> visits them. The result is the registry and the frames sent, each with
  its socket, in the order of the calls of \<open>send\<close>.
\<close>

type_synonym socket = nat

definition on_message ::
  "(string \<Rightarrow> string + json) \<Rightarrow> (json \<Rightarrow> string) \<Rightarrow> socket list \<Rightarrow> socket \<Rightarrow>
   Channels \<Rightarrow> string \<Rightarrow> Channels \<times> (socket \<times> string) list" where
  "on_message parse stringify clients ws s rawData =
     (case parse rawData of
        Inl message \<Rightarrow> (s, [(ws, stringify (error_object message))])
      | Inr data \<Rightarrow>
          if \<not> isNewMessage data
          then (s, [(ws, stringify (error_object ''Invalid message format''))])
          else if length (userName_of data) < 1
          then (s, [(ws, stringify (error_object
                  ''Message userName must be longer than 0 character''))])
          else if length (text_of data) < 1
          then (s, [(ws, stringify (error_object
                  ''Message text must be longer than 0 character''))])
          else
            (case getChannel s (channelId_of data) of
               None \<Rightarrow> (s, [(ws, stringify (error_object ''Channel not found''))])
             | Some channel \<Rightarrow>
                 (push s (channelId_of data) channel
                    \<lparr>userName = userName_of data, text' = text_of data\<rparr>,
                  map (\<lambda>client. (client, stringify data)) clients)))"

section \<open>The earlier server, \<open>src/unnamed/part_000\<close>\<close>

text \<open>
  The earlier server keeps the map and the counter in two globals, the same state as the
  class of \<open>src/index.ts\<close>, and creates a channel inside the route. Its
  \<open>assertChannelName\<close> also rejects the empty string; it has no other check of a name.
\<close>

fun assertChannelName_part_000 :: "json option \<Rightarrow> error + string" where
  "assertChannelName_part_000 None = Inl NameParameterMissing"
| "assertChannelName_part_000 (Some (JString nm)) =
     (if length nm = 0 then Inl NameParameterEmpty else Inr nm)"
| "assertChannelName_part_000 (Some v) = Inl NameParameterNotString"

definition post_channels_part_000 :: "Channels \<Rightarrow> json option \<Rightarrow> response \<times> Channels" where
  "post_channels_part_000 s name_param =
     (case assertChannelName_part_000 name_param of
        Inl e \<Rightarrow> (Throw 400 (Inl e), s)
      | Inr nm \<Rightarrow>
          (let (i, s1) = issueNextChannelId s;
               channel = \<lparr>id' = i, name = nm, messages = []\<rparr>
           in (Ok (ChannelBody channel),
               s1\<lparr>channels := AList.update (id' channel) channel (channels s1)\<rparr>)))"

section \<open>Runs of the registry\<close>

text \<open>
  The registries a running server can hold: the seeded one, and any registry that a method
  of the class or the message listener makes of one of them, with any arguments. The
  routes change the registry through these methods only.
\<close>

inductive reachable :: "Channels \<Rightarrow> bool" where
  start: "reachable seeded"
| created: "reachable s \<Longrightarrow> reachable (snd (create s nm))"
| renamed: "reachable s \<Longrightarrow> reachable (snd (changeName s i nm))"
| deleted: "reachable s \<Longrightarrow> reachable (snd (deleteChannel s i))"
| received:
    "reachable s \<Longrightarrow> reachable (fst (on_message parse stringify clients ws s rawData))"

text \<open>
  A sequence of calls on the registry, run in order; the run collects the identifiers
  that the successful calls of \<open>create\<close> returned, in the order of the calls.
\<close>

datatype call = Create string | ChangeName number string | DeleteChannel number

fun perform :: "call \<Rightarrow> Channels \<Rightarrow> number list \<times> Channels" where
  "perform (Create nm) s =
     (case create s nm of
        (Inl e, s') \<Rightarrow> ([], s')
      | (Inr channel, s') \<Rightarrow> ([id' channel], s'))"
| "perform (ChangeName i nm) s = ([], snd (changeName s i nm))"
| "perform (DeleteChannel i) s = ([], snd (deleteChannel s i))"

fun run :: "call list \<Rightarrow> Channels \<Rightarrow> number list \<times> Channels" where
  "run [] s = ([], s)"
| "run (c # cs) s =
     (let (issued, s1) = perform c s;
          (later, s2) = run cs s1
      in (issued @ later, s2))"

text \<open>The calls that seed the registry when the process starts.\<close>

definition startup :: "call list" where
  "startup = [Create ''general'', Create ''random'']"

section \<open>The shape of a message, in the words of the specification\<close>

text \<open>
  The shape \<open>{ type: "message", channelId: integer, userName: string, text: string }\<close>:
  an object whose four properties are present with these types, \<open>type\<close> being the string
  \<open>message\<close>.
\<close>

fun is_string :: "json option \<Rightarrow> bool" where
  "is_string (Some (JString u)) = True"
| "is_string _ = False"

fun is_integer_number :: "json option \<Rightarrow> bool" where
  "is_integer_number (Some (JNumber n)) = is_integer n"
| "is_integer_number _ = False"

fun has_message_shape :: "json \<Rightarrow> bool" where
  "has_message_shape (JObject kvs) =
     (map_of kvs ''type'' = Some (JString ''message'') \<and>
      is_integer_number (map_of kvs ''channelId'') \<and>
      is_string (map_of kvs ''userName'') \<and>
      is_string (map_of kvs ''text''))"
| "has_message_shape _ = False"

section \<open>Names and registries, in the words of the specification\<close>

text \<open>A valid name: 1 to 15 characters, each of the class \<open>[A-Za-z0-9_-]\<close>.\<close>

definition valid_name :: "string \<Rightarrow> bool" where
  "valid_name nm = (1 \<le> length nm \<and> length nm \<le> 15 \<and> list_all in_class nm)"

text \<open>
  The invariant of the registry. The keys of the map are distinct; the counter is a
  positive integer; every key is a positive integer not above the counter and is the
  \<open>id\<close> of the channel stored under it; every stored name is valid; no two entries bear
  the same name.
\<close>

definition entries_ok :: "nat \<Rightarrow> (number \<times> Channel) set \<Rightarrow> bool" where
  "entries_ok n E =
     ((\<forall>p \<in> E. (\<exists>m. 0 < m \<and> m \<le> n \<and> fst p = Finite (of_nat m)) \<and>
               id' (snd p) = fst p \<and> valid_name (name (snd p))) \<and>
      (\<forall>p \<in> E. \<forall>q \<in> E. name (snd p) = name (snd q) \<longrightarrow> fst p = fst q))"

definition invariant :: "Channels \<Rightarrow> bool" where
  "invariant s =
     (distinct (map fst (channels s)) \<and>
      (\<exists>n. 0 < n \<and> nextChannelId s = Finite (of_nat n) \<and> entries_ok n (set (channels s))))"


section \<open>Properties of the registry\<close>

subsection \<open>The invariant\<close>

lemma set_update_distinct:
  "distinct (map fst al) \<Longrightarrow> set (AList.update k v al) = insert (k, v) {p \<in> set al. fst p \<noteq> k}"
  by (induction al) (auto simp: rev_image_eqI)

lemma set_delete: "set (AList.delete k al) = {p \<in> set al. fst p \<noteq> k}"
  by (auto simp: AList.delete_eq)

lemma entries_ok_subset: "entries_ok n E \<Longrightarrow> F \<subseteq> E \<Longrightarrow> entries_ok n F"
  unfolding entries_ok_def by blast

lemma entries_ok_mono: "entries_ok n E \<Longrightarrow> n \<le> n' \<Longrightarrow> entries_ok n' E"
  unfolding entries_ok_def by (meson le_trans)

lemma plus_one_of_nat:
  "plus_one (Finite (of_nat n)) = Finite (of_nat (if n < 2 ^ 53 then Suc n else n))"
proof -
  have "(of_nat n :: rat) < 2 ^ 53 \<longleftrightarrow> n < 2 ^ 53"
    by (metis of_nat_less_iff of_nat_numeral of_nat_power)
  then show ?thesis by (simp add: add.commute)
qed

lemma entries_ok_insert:
  assumes "entries_ok n E"
    and "\<exists>m. 0 < m \<and> m \<le> n \<and> k = Finite (of_nat m)"
    and "id' c = k" and "valid_name (name c)"
    and "\<forall>q \<in> E. name (snd q) = name c \<longrightarrow> fst q = k"
  shows "entries_ok n (insert (k, c) E)"
  using assms unfolding entries_ok_def by (simp add: Ball_def)

lemma entries_ok_memD:
  "entries_ok n E \<Longrightarrow> (k, c) \<in> E \<Longrightarrow>
     (\<exists>m. 0 < m \<and> m \<le> n \<and> k = Finite (of_nat m)) \<and> id' c = k \<and> valid_name (name c)"
  unfolding entries_ok_def by (drule conjunct1, drule bspec, assumption) simp

lemma entries_ok_uniqD:
  "entries_ok n E \<Longrightarrow> (k, c) \<in> E \<Longrightarrow> (k', c') \<in> E \<Longrightarrow> name c = name c' \<Longrightarrow> k = k'"
  unfolding entries_ok_def
  by (drule conjunct2, drule bspec, assumption, drule bspec, assumption) simp

lemma seeded_eq:
  "seeded = \<lparr>channels =
      [(Finite 1, \<lparr>id' = Finite 1, name = ''general'', messages = []\<rparr>),
       (Finite 2, \<lparr>id' = Finite 2, name = ''random'', messages = []\<rparr>)],
      nextChannelId = Finite 3\<rparr>"
  by (simp add: seeded_def create_def fresh_def validateChannelName_def matches_pattern_def
      in_class_def issueNextChannelId_def Let_def)

lemma validate_Inr_iff:
  "validateChannelName s nm = Inr u \<longleftrightarrow>
     valid_name nm \<and> (\<forall>p \<in> set (channels s). name (snd p) \<noteq> nm)"
  by (cases nm) (auto simp: validateChannelName_def valid_name_def matches_pattern_def list_ex_iff)

lemma invariant_seeded: "invariant seeded"
proof -
  have "entries_ok 3 {(Finite 1, \<lparr>id' = Finite 1, name = ''general'', messages = []\<rparr>),
       (Finite 2, \<lparr>id' = Finite 2, name = ''random'', messages = []\<rparr>)}"
    unfolding entries_ok_def
    by (simp add: valid_name_def in_class_def)
  then show ?thesis
    unfolding invariant_def seeded_eq
    by (auto intro: exI [of _ 3])
qed


lemma invariant_update_new:
  assumes inv: "invariant s" and nm: "valid_name nm"
    and unused: "\<forall>p \<in> set (channels s). name (snd p) \<noteq> nm"
  shows "invariant (s\<lparr>nextChannelId := plus_one (nextChannelId s),
            channels := AList.update (nextChannelId s)
               \<lparr>id' = nextChannelId s, name = nm, messages = []\<rparr> (channels s)\<rparr>)"
proof -
  from inv obtain n where pos: "0 < n" and n: "nextChannelId s = Finite (of_nat n)"
    and ok: "entries_ok n (set (channels s))"
    by (auto simp: invariant_def)
  from inv have d: "distinct (map fst (channels s))" by (simp add: invariant_def)
  let ?c = "\<lparr>id' = nextChannelId s, name = nm, messages = []\<rparr>"
  let ?E = "{p \<in> set (channels s). fst p \<noteq> nextChannelId s}"
  define n' where "n' = (if n < 2 ^ 53 then Suc n else n)"
  have le: "n \<le> n'" by (simp add: n'_def)
  have E: "entries_ok n' ?E"
    by (rule entries_ok_mono [OF entries_ok_subset [OF ok] le]) auto
  have key: "\<exists>m. 0 < m \<and> m \<le> n' \<and> nextChannelId s = Finite (of_nat m)"
    using pos n le by blast
  have other: "\<forall>q \<in> ?E. name (snd q) = name ?c \<longrightarrow> fst q = nextChannelId s"
    using unused by simp
  have new: "entries_ok n' (insert (nextChannelId s, ?c) ?E)"
    by (rule entries_ok_insert [OF E key _ _ other]) (simp_all add: nm)
  have next': "plus_one (nextChannelId s) = Finite (of_nat n')"
    unfolding n n'_def by (rule plus_one_of_nat)
  have pos': "0 < n'" using pos le by simp
  show ?thesis
    unfolding invariant_def
    using new pos'
    by (auto simp add: next' distinct_update d set_update_distinct)
qed

lemma invariant_create:
  assumes inv: "invariant s"
  shows "invariant (snd (create s nm))"
proof (cases "validateChannelName s nm")
  case (Inl e)
  then show ?thesis using inv by (simp add: create_def)
next
  case (Inr u)
  then have "valid_name nm" and "\<forall>p \<in> set (channels s). name (snd p) \<noteq> nm"
    by (simp_all add: validate_Inr_iff)
  from invariant_update_new [OF inv this] show ?thesis
    by (simp add: create_def Inr issueNextChannelId_def Let_def)
qed

lemma invariant_delete:
  assumes inv: "invariant s"
  shows "invariant (snd (deleteChannel s i))"
proof -
  from inv obtain n where pos: "0 < n" and n: "nextChannelId s = Finite (of_nat n)"
    and ok: "entries_ok n (set (channels s))"
    by (auto simp: invariant_def)
  have "entries_ok n (set (AList.delete i (channels s)))"
    by (rule entries_ok_subset [OF ok]) (auto simp: set_delete)
  moreover have "distinct (map fst (AList.delete i (channels s)))"
    using inv by (simp add: invariant_def distinct_delete)
  ultimately show ?thesis
    unfolding invariant_def deleteChannel_def using pos n by auto
qed

lemma invariant_update_same:
  assumes inv: "invariant s" and c: "map_of (channels s) i = Some c"
    and same: "id' c' = id' c"
    and nm: "name c' = name c \<or>
      valid_name (name c') \<and> (\<forall>p \<in> set (channels s). name (snd p) \<noteq> name c')"
  shows "invariant (s\<lparr>channels := AList.update i c' (channels s)\<rparr>)"
proof -
  from inv obtain n where pos: "0 < n" and n: "nextChannelId s = Finite (of_nat n)"
    and ok: "entries_ok n (set (channels s))"
    by (auto simp: invariant_def)
  from inv have d: "distinct (map fst (channels s))" by (simp add: invariant_def)
  from c have mem: "(i, c) \<in> set (channels s)" by (rule map_of_SomeD)
  let ?E = "{p \<in> set (channels s). fst p \<noteq> i}"
  have E: "entries_ok n ?E"
    by (rule entries_ok_subset [OF ok]) auto
  note c_ok = entries_ok_memD [OF ok mem]
  have key: "\<exists>m. 0 < m \<and> m \<le> n \<and> i = Finite (of_nat m)"
    using c_ok by simp
  have id: "id' c' = i"
    using c_ok same by simp
  have valid: "valid_name (name c')"
    using c_ok nm by auto
  have other: "\<forall>q \<in> ?E. name (snd q) = name c' \<longrightarrow> fst q = i"
  proof (intro ballI impI)
    fix q assume q: "q \<in> ?E" and eq: "name (snd q) = name c'"
    from nm show "fst q = i"
    proof
      assume "name c' = name c"
      with eq have "name (snd q) = name c" by simp
      moreover from q have "(fst q, snd q) \<in> set (channels s)" by simp
      ultimately show ?thesis by (rule entries_ok_uniqD [OF ok _ mem, rotated])
    next
      assume "valid_name (name c') \<and> (\<forall>p \<in> set (channels s). name (snd p) \<noteq> name c')"
      with q eq show ?thesis by simp
    qed
  qed
  have "entries_ok n (insert (i, c') ?E)"
    by (rule entries_ok_insert [OF E key id valid other])
  then show ?thesis
    unfolding invariant_def using pos n
    by (simp add: distinct_update d set_update_distinct) 
qed

lemma invariant_changeName:
  assumes inv: "invariant s"
  shows "invariant (snd (changeName s i nm))"
proof (cases "map_of (channels s) i")
  case None
  then show ?thesis using inv by (simp add: changeName_def)
next
  case (Some c)
  show ?thesis
  proof (cases "validateChannelName s nm")
    case (Inl e)
    then show ?thesis using inv Some by (simp add: changeName_def)
  next
    case (Inr u)
    then have "valid_name nm" and "\<forall>p \<in> set (channels s). name (snd p) \<noteq> nm"
      by (simp_all add: validate_Inr_iff)
    then have "invariant (s\<lparr>channels := AList.update i (c\<lparr>name := nm\<rparr>) (channels s)\<rparr>)"
      by (intro invariant_update_same [OF inv Some] disjI2) simp_all
    then show ?thesis by (simp add: changeName_def Some Inr Let_def)
  qed
qed

lemma invariant_push:
  assumes inv: "invariant s" and c: "getChannel s i = Some c"
  shows "invariant (push s i c m)"
  unfolding push_def
  by (rule invariant_update_same [OF inv, of i c]) (use c in \<open>simp_all add: getChannel_def\<close>)

lemma invariant_on_message:
  assumes inv: "invariant s"
  shows "invariant (fst (on_message parse stringify clients ws s rawData))"
  using inv by (simp add: on_message_def invariant_push split: sum.splits option.splits)

lemma reachable_invariant: "reachable s \<Longrightarrow> invariant s"
  by (induction rule: reachable.induct)
    (simp_all add: invariant_seeded invariant_create invariant_changeName invariant_delete
      invariant_on_message)

lemma reachable_post_channels: "reachable s \<Longrightarrow> reachable (snd (post_channels s p))"
proof -
  assume r: "reachable s"
  show ?thesis
  proof (cases "assertChannelName p")
    case (Inl e)
    with r show ?thesis by (simp add: post_channels_def)
  next
    case (Inr nm)
    have "snd (post_channels s p) = snd (create s nm)"
      by (simp add: post_channels_def Inr split: prod.splits sum.splits)
    with reachable.created [OF r, of nm] show ?thesis by simp
  qed
qed

lemma reachable_patch_channels:
  "reachable s \<Longrightarrow> reachable (snd (patch_channels to_number s idString p))"
proof -
  assume r: "reachable s"
  have "snd (patch_channels to_number s idString p) = s \<or>
      (\<exists>nm. snd (patch_channels to_number s idString p) =
         snd (changeName s (to_number idString) nm))"
    by (simp add: patch_channels_def Let_def split: option.splits sum.splits prod.splits)
      (metis snd_conv)
  with r reachable.renamed [OF r] show ?thesis by auto
qed

lemma reachable_delete_channels:
  "reachable s \<Longrightarrow> reachable (snd (delete_channels to_number s idString))"
  by (auto simp: delete_channels_def Let_def reachable.deleted split: option.splits)

subsection \<open>The claims about the registry\<close>

text \<open>
  C1. A name of 1 to 15 characters of the class \<open>[A-Za-z0-9_-]\<close> that no live channel
  bears is accepted by \<open>create\<close>: the call returns the channel with the next identifier,
  that name and no messages, stores it under that identifier and advances the counter;
  \<open>getChannel\<close> on the returned identifier then yields that channel.
\<close>

theorem create_valid_name:
  assumes "1 \<le> length nm" and "length nm \<le> 15" and "list_all in_class nm"
    and "\<forall>c \<in> set (getAllChannels s). name c \<noteq> nm"
  shows "create s nm =
           (Inr \<lparr>id' = nextChannelId s, name = nm, messages = []\<rparr>,
            s\<lparr>nextChannelId := plus_one (nextChannelId s),
              channels := AList.update (nextChannelId s)
                \<lparr>id' = nextChannelId s, name = nm, messages = []\<rparr> (channels s)\<rparr>)
         \<and> getChannel (snd (create s nm)) (nextChannelId s) =
               Some \<lparr>id' = nextChannelId s, name = nm, messages = []\<rparr>"
proof -
  have "validateChannelName s nm = Inr ()"
    using assms by (simp add: validate_Inr_iff valid_name_def getAllChannels_def)
  then show ?thesis
    by (simp add: create_def issueNextChannelId_def getChannel_def update_conv' Let_def)
qed

theorem create_valid_name_witness:
  "create seeded ''dev'' =
     (Inr \<lparr>id' = Finite 3, name = ''dev'', messages = []\<rparr>,
      \<lparr>channels =
         [(Finite 1, \<lparr>id' = Finite 1, name = ''general'', messages = []\<rparr>),
          (Finite 2, \<lparr>id' = Finite 2, name = ''random'', messages = []\<rparr>),
          (Finite 3, \<lparr>id' = Finite 3, name = ''dev'', messages = []\<rparr>)],
       nextChannelId = Finite 4\<rparr>)
   \<and> getChannel (snd (create seeded ''dev'')) (Finite 3) =
       Some \<lparr>id' = Finite 3, name = ''dev'', messages = []\<rparr>"
proof -
  have len: "1 \<le> length ''dev''" "length ''dev'' \<le> 15"
    by simp_all
  have cls: "list_all in_class ''dev''"
    by (simp add: in_class_def)
  have unused: "\<forall>c \<in> set (getAllChannels seeded). name c \<noteq> ''dev''"
    by (simp add: seeded_eq getAllChannels_def)
  note create_valid_name [OF len cls unused]
  then show ?thesis
    by (simp add: seeded_eq getChannel_def)
qed

lemma validate_taken:
  assumes "c \<in> set (getAllChannels s)"
  shows "validateChannelName s (name c) \<in> Inl ` {NameEmpty, NameTooLong, NameNotAlphanumeric, NameInUse}"
  using assms by (auto simp: validateChannelName_def getAllChannels_def list_ex_iff)

lemma validate_taken_valid:
  assumes "c \<in> set (getAllChannels s)" and "valid_name (name c)"
  shows "validateChannelName s (name c) = Inl NameInUse"
  using assms
  by (cases "name c")
    (auto simp: validateChannelName_def getAllChannels_def list_ex_iff valid_name_def
      matches_pattern_def)

lemma reachable_names_valid:
  assumes "reachable s" and "c \<in> set (getAllChannels s)"
  shows "valid_name (name c)"
proof -
  from assms(1) have "invariant s" by (rule reachable_invariant)
  then obtain n where ok: "entries_ok n (set (channels s))"
    by (auto simp: invariant_def)
  from assms(2) obtain k where "(k, c) \<in> set (channels s)"
    by (auto simp: getAllChannels_def)
  from entries_ok_memD [OF ok this] show ?thesis by simp
qed

lemma getChannel_mem: "getChannel s i = Some c \<Longrightarrow> c \<in> set (getAllChannels s)"
  unfolding getChannel_def getAllChannels_def
  by (drule map_of_SomeD) force

text \<open>
  C5. In \<open>src/index.ts\<close>, \<open>create\<close> with the name of a live channel throws one of the four
  errors of \<open>validateChannelName\<close> and leaves the registry as it was, and the route
  \<open>POST /channels\<close> answers 400 with that error; in a registry the server can reach the
  error is the one for a name already in use.
\<close>

theorem create_live_name:
  assumes "c \<in> set (getAllChannels s)"
  shows "(\<exists>e \<in> {NameEmpty, NameTooLong, NameNotAlphanumeric, NameInUse}.
            create s (name c) = (Inl e, s)
          \<and> post_channels s (Some (JString (name c))) = (Throw 400 (Inl e), s))
       \<and> (reachable s \<longrightarrow> create s (name c) = (Inl NameInUse, s))"
proof -
  from validate_taken [OF assms] obtain e
    where e: "e \<in> {NameEmpty, NameTooLong, NameNotAlphanumeric, NameInUse}"
      and v: "validateChannelName s (name c) = Inl e"
    by blast
  have 1: "create s (name c) = (Inl e, s)" by (simp add: create_def v)
  then have 2: "post_channels s (Some (JString (name c))) = (Throw 400 (Inl e), s)"
    by (simp add: post_channels_def)
  have 3: "create s (name c) = (Inl NameInUse, s)" if "reachable s"
    using validate_taken_valid [OF assms reachable_names_valid [OF that assms]]
    by (simp add: create_def)
  from e 1 2 3 show ?thesis by blast
qed

theorem create_live_name_witness:
  "create seeded ''general'' = (Inl NameInUse, seeded)"
proof -
  have live: "\<lparr>id' = Finite 1, name = ''general'', messages = []\<rparr> \<in> set (getAllChannels seeded)"
    by (simp add: seeded_eq getAllChannels_def)
  note create_live_name [OF live, THEN conjunct2, THEN mp, OF reachable.start]
  then show ?thesis by simp
qed

text \<open>
  The earlier server has no check for a name in use: its route \<open>POST /channels\<close> answers a
  request for the name \<open>general\<close> of a seeded channel with a new channel of that name, and
  the registry then holds three channels instead of two.
\<close>

theorem post_channels_part_000_duplicate:
  "\<lparr>id' = Finite 1, name = ''general'', messages = []\<rparr> \<in> set (getAllChannels seeded)
   \<and> post_channels_part_000 seeded (Some (JString ''general'')) =
     (Ok (ChannelBody \<lparr>id' = Finite 3, name = ''general'', messages = []\<rparr>),
      \<lparr>channels =
         [(Finite 1, \<lparr>id' = Finite 1, name = ''general'', messages = []\<rparr>),
          (Finite 2, \<lparr>id' = Finite 2, name = ''random'', messages = []\<rparr>),
          (Finite 3, \<lparr>id' = Finite 3, name = ''general'', messages = []\<rparr>)],
       nextChannelId = Finite 4\<rparr>)
   \<and> length (getAllChannels (snd (post_channels_part_000 seeded (Some (JString ''general'')))))
       = 3
   \<and> length (getAllChannels seeded) = 2"
  by (simp add: post_channels_part_000_def seeded_eq issueNextChannelId_def Let_def
      getAllChannels_def)

lemma getChannel_absent_delete:
  "getChannel s i = None \<Longrightarrow> AList.delete i (channels s) = channels s"
  by (simp add: getChannel_def map_of_eq_None_iff)

text \<open>
  C6. The method \<open>deleteChannel\<close> never throws, whatever the identifier; deleting an
  identifier a second time changes nothing more; the identifier is unbound afterwards;
  and deleting an identifier that is bound to no channel leaves the registry as it was.
  The route \<open>DELETE /channels/:id\<close> in front of it answers 404 with
  \<open>Channel not found\<close> for an identifier bound to no channel and leaves the registry as
  it was; for a bound identifier it answers with an empty body and the registry is that of
  \<open>deleteChannel\<close>. A second request for the same identifier is therefore always
  answered 404, and the registry after two requests is the registry after one.
\<close>

theorem delete_idempotent:
  "fst (deleteChannel s i) = Inr ()
   \<and> deleteChannel (snd (deleteChannel s i)) i = deleteChannel s i
   \<and> getChannel (snd (deleteChannel s i)) i = None
   \<and> (getChannel s i = None \<longrightarrow> deleteChannel s i = (Inr (), s))
   \<and> (getChannel s (to_number idString) = None \<longrightarrow>
        delete_channels to_number s idString = (Throw 404 (Inr ''Channel not found''), s))
   \<and> (getChannel s (to_number idString) \<noteq> None \<longrightarrow>
        delete_channels to_number s idString =
          (Ok EmptyBody, snd (deleteChannel s (to_number idString))))
   \<and> delete_channels to_number (snd (delete_channels to_number s idString)) idString =
        (Throw 404 (Inr ''Channel not found''), snd (delete_channels to_number s idString))"
proof -
  have direct: "fst (deleteChannel s i) = Inr ()"
    "deleteChannel (snd (deleteChannel s i)) i = deleteChannel s i"
    "getChannel (snd (deleteChannel s i)) i = None"
    "getChannel s i = None \<longrightarrow> deleteChannel s i = (Inr (), s)"
    by (simp_all add: deleteChannel_def delete_idem getChannel_absent_delete getChannel_def
        delete_conv')
  have absent: "getChannel s (to_number idString) = None \<longrightarrow>
      delete_channels to_number s idString = (Throw 404 (Inr ''Channel not found''), s)"
    by (simp add: delete_channels_def Let_def)
  have bound: "getChannel s (to_number idString) \<noteq> None \<longrightarrow>
      delete_channels to_number s idString =
        (Ok EmptyBody, snd (deleteChannel s (to_number idString)))"
    by (auto simp: delete_channels_def Let_def)
  have gone: "getChannel (snd (delete_channels to_number s idString)) (to_number idString) =
      None"
    by (cases "getChannel s (to_number idString)")
      (simp_all add: delete_channels_def Let_def deleteChannel_def getChannel_def delete_conv')
  then have twice:
    "delete_channels to_number (snd (delete_channels to_number s idString)) idString =
        (Throw 404 (Inr ''Channel not found''), snd (delete_channels to_number s idString))"
    by (simp add: delete_channels_def [of to_number "snd (delete_channels to_number s idString)"]
        Let_def)
  from direct absent bound twice show ?thesis by (intro conjI)
qed

theorem delete_idempotent_witness:
  "getChannel seeded (Finite 9) = None
   \<and> deleteChannel seeded (Finite 9) = (Inr (), seeded)
   \<and> delete_channels (\<lambda>x. if x = ''2'' then Finite 2 else if x = ''9'' then Finite 9 else NaN) seeded ''9'' = (Throw 404 (Inr ''Channel not found''), seeded)
   \<and> getChannel seeded (Finite 2) \<noteq> None
   \<and> delete_channels (\<lambda>x. if x = ''2'' then Finite 2 else if x = ''9'' then Finite 9 else NaN) seeded ''2'' =
       (Ok EmptyBody,
        \<lparr>channels = [(Finite 1, \<lparr>id' = Finite 1, name = ''general'', messages = []\<rparr>)],
         nextChannelId = Finite 3\<rparr>)"
proof -
  let ?number = "(\<lambda>x. if x = ''2'' then Finite 2 else if x = ''9'' then Finite 9 else NaN)"
  have none: "getChannel seeded (Finite 9) = None"
    by (simp add: seeded_eq getChannel_def)
  have absent: "getChannel seeded (?number ''9'') = None"
    by (simp add: seeded_eq getChannel_def)
  have bound: "getChannel seeded (?number ''2'') \<noteq> None"
    by (simp add: seeded_eq getChannel_def)
  note delete_idempotent [of seeded "Finite 9", THEN conjunct2, THEN conjunct2,
      THEN conjunct2, THEN conjunct1, THEN mp, OF none]
    delete_idempotent [where s = seeded and to_number = ?number and idString = "''9''",
      THEN conjunct2, THEN conjunct2, THEN conjunct2, THEN conjunct2, THEN conjunct1,
      THEN mp, OF absent]
    delete_idempotent [where s = seeded and to_number = ?number and idString = "''2''",
      THEN conjunct2, THEN conjunct2, THEN conjunct2, THEN conjunct2, THEN conjunct2,
      THEN conjunct1, THEN mp, OF bound]
  with none bound show ?thesis
    by (simp add: seeded_eq deleteChannel_def)
qed

text \<open>
  The route does report an error for an identifier that is absent: on the seeded registry
  a request for the identifier 9, bound to no channel, is answered 404, and of two requests
  for the identifier 2 the first is answered with an empty body and the second with 404.
\<close>

theorem delete_route_absent_404:
  "getChannel seeded (Finite 9) = None
   \<and> delete_channels (\<lambda>x. if x = ''2'' then Finite 2 else if x = ''9'' then Finite 9 else NaN) seeded ''9'' = (Throw 404 (Inr ''Channel not found''), seeded)
   \<and> fst (delete_channels (\<lambda>x. if x = ''2'' then Finite 2 else if x = ''9'' then Finite 9 else NaN) seeded ''2'') = Ok EmptyBody
   \<and> fst (delete_channels (\<lambda>x. if x = ''2'' then Finite 2 else if x = ''9'' then Finite 9 else NaN) (snd (delete_channels (\<lambda>x. if x = ''2'' then Finite 2 else if x = ''9'' then Finite 9 else NaN) seeded ''2'')) ''2'') =
       Throw 404 (Inr ''Channel not found'')"
  by (simp add: seeded_eq getChannel_def delete_channels_def deleteChannel_def)

text \<open>
  C4. \<open>changeName\<close> on an unknown identifier throws the error for a missing channel and
  leaves the registry as it was. On the identifier of a channel, with a valid name that no
  live channel bears, it returns and stores the channel with the new name and the same
  \<open>id\<close> and messages; \<open>getChannel\<close> on that identifier then yields this channel, every
  other identifier is bound as before, and the order of the map is unchanged.
\<close>

theorem changeName_keeps_history:
  "(getChannel s i = None \<longrightarrow> changeName s i nm = (Inl ChannelMissing, s))
   \<and> (\<forall>c. getChannel s i = Some c \<and> valid_name nm
            \<and> (\<forall>x \<in> set (getAllChannels s). name x \<noteq> nm) \<longrightarrow>
          changeName s i nm =
            (Inr \<lparr>id' = id' c, name = nm, messages = messages c\<rparr>,
             s\<lparr>channels :=
                 AList.update i \<lparr>id' = id' c, name = nm, messages = messages c\<rparr>
                   (channels s)\<rparr>)
          \<and> getChannel (snd (changeName s i nm)) i =
              Some \<lparr>id' = id' c, name = nm, messages = messages c\<rparr>
          \<and> (\<forall>j. j \<noteq> i \<longrightarrow> getChannel (snd (changeName s i nm)) j = getChannel s j)
          \<and> map fst (channels (snd (changeName s i nm))) = map fst (channels s))"
proof (intro conjI impI allI)
  assume "getChannel s i = None"
  then show "changeName s i nm = (Inl ChannelMissing, s)"
    by (simp add: changeName_def getChannel_def)
next
  fix c
  assume a: "getChannel s i = Some c \<and> valid_name nm
            \<and> (\<forall>x \<in> set (getAllChannels s). name x \<noteq> nm)"
  then have c: "map_of (channels s) i = Some c" by (simp add: getChannel_def)
  from a have v: "validateChannelName s nm = Inr ()"
    by (simp add: validate_Inr_iff getAllChannels_def)
  have new: "c\<lparr>name := nm\<rparr> = \<lparr>id' = id' c, name = nm, messages = messages c\<rparr>"
    by simp
  show r: "changeName s i nm =
            (Inr \<lparr>id' = id' c, name = nm, messages = messages c\<rparr>,
             s\<lparr>channels :=
                 AList.update i \<lparr>id' = id' c, name = nm, messages = messages c\<rparr>
                   (channels s)\<rparr>)"
    by (simp add: changeName_def c v Let_def new)
  show "getChannel (snd (changeName s i nm)) i =
              Some \<lparr>id' = id' c, name = nm, messages = messages c\<rparr>"
    by (simp add: r getChannel_def update_conv')
  show "getChannel (snd (changeName s i nm)) j = getChannel s j" if "j \<noteq> i" for j
    using that by (simp add: r getChannel_def update_conv')
  from c have "i \<in> fst ` set (channels s)"
    by (metis map_of_eq_None_iff option.distinct(1))
  then show "map fst (channels (snd (changeName s i nm))) = map fst (channels s)"
    by (simp add: r update_keys)
qed

theorem changeName_keeps_history_witness:
  "changeName seeded (Finite 7) ''lobby'' = (Inl ChannelMissing, seeded)
   \<and> changeName seeded (Finite 1) ''lobby'' =
       (Inr \<lparr>id' = Finite 1, name = ''lobby'', messages = []\<rparr>,
        \<lparr>channels =
           [(Finite 1, \<lparr>id' = Finite 1, name = ''lobby'', messages = []\<rparr>),
            (Finite 2, \<lparr>id' = Finite 2, name = ''random'', messages = []\<rparr>)],
         nextChannelId = Finite 3\<rparr>)"
proof -
  have none: "getChannel seeded (Finite 7) = None"
    by (simp add: seeded_eq getChannel_def)
  have some: "getChannel seeded (Finite 1) = Some \<lparr>id' = Finite 1, name = ''general'', messages = []\<rparr> \<and> valid_name ''lobby''
      \<and> (\<forall>x \<in> set (getAllChannels seeded). name x \<noteq> ''lobby'')"
    by (simp add: seeded_eq getChannel_def getAllChannels_def valid_name_def in_class_def)
  note changeName_keeps_history [of seeded "Finite 7" "''lobby''", THEN conjunct1, THEN mp,
      OF none]
    changeName_keeps_history [of seeded "Finite 1" "''lobby''", THEN conjunct2, THEN spec,
      THEN mp, OF some, THEN conjunct1]
  then show ?thesis
    by (simp add: seeded_eq)
qed

text \<open>
  C8. \<open>changeName\<close> of a live channel to the name it already bears throws one of the four
  errors of \<open>validateChannelName\<close> and leaves the registry as it was; in a registry the
  server can reach, where every stored name is valid, the error is the one for a name
  already in use.
\<close>

theorem changeName_own_name:
  assumes "getChannel s i = Some c"
  shows "(\<exists>e \<in> {NameEmpty, NameTooLong, NameNotAlphanumeric, NameInUse}.
            changeName s i (name c) = (Inl e, s))
       \<and> (reachable s \<longrightarrow> changeName s i (name c) = (Inl NameInUse, s))"
proof -
  from assms have mem: "c \<in> set (getAllChannels s)" by (rule getChannel_mem)
  from validate_taken [OF mem] obtain e
    where e: "e \<in> {NameEmpty, NameTooLong, NameNotAlphanumeric, NameInUse}"
      and v: "validateChannelName s (name c) = Inl e"
    by blast
  from assms v have 1: "changeName s i (name c) = (Inl e, s)"
    by (simp add: changeName_def getChannel_def)
  have 2: "changeName s i (name c) = (Inl NameInUse, s)" if "reachable s"
    using validate_taken_valid [OF mem reachable_names_valid [OF that mem]] assms
    by (simp add: changeName_def getChannel_def)
  from e 1 2 show ?thesis by blast
qed

theorem changeName_own_name_witness:
  "getChannel seeded (Finite 2) = Some \<lparr>id' = Finite 2, name = ''random'', messages = []\<rparr>
   \<and> changeName seeded (Finite 2) ''random'' = (Inl NameInUse, seeded)"
proof -
  have live: "getChannel seeded (Finite 2) = Some \<lparr>id' = Finite 2, name = ''random'', messages = []\<rparr>"
    by (simp add: seeded_eq getChannel_def)
  note changeName_own_name [OF live, THEN conjunct2, THEN mp, OF reachable.start]
  with live show ?thesis by simp
qed

lemma reachable_NaN: "reachable s \<Longrightarrow> getChannel s NaN = None"
proof -
  assume "reachable s"
  then have "invariant s" by (rule reachable_invariant)
  then obtain n where ok: "entries_ok n (set (channels s))"
    by (auto simp: invariant_def)
  have "NaN \<notin> fst ` set (channels s)"
  proof
    assume "NaN \<in> fst ` set (channels s)"
    then obtain c where "(NaN, c) \<in> set (channels s)" by auto
    from entries_ok_memD [OF ok this] show False by simp
  qed
  then show ?thesis by (simp add: getChannel_def map_of_eq_None_iff)
qed

text \<open>
  C10. In a registry the server can reach, when \<open>Number\<close> of the \<open>:id\<close> segment is NaN
  or a number bound to no channel, the routes \<open>PATCH /channels/:id\<close> and
  \<open>DELETE /channels/:id\<close> both answer 404 with \<open>Channel not found\<close> and leave the registry
  as it was.
\<close>

theorem unknown_id_404:
  assumes "reachable s"
    and "to_number idString = NaN \<or> getChannel s (to_number idString) = None"
  shows "patch_channels to_number s idString name_param =
           (Throw 404 (Inr ''Channel not found''), s)
       \<and> delete_channels to_number s idString =
           (Throw 404 (Inr ''Channel not found''), s)"
proof -
  from assms have "getChannel s (to_number idString) = None"
    by (auto simp: reachable_NaN)
  then show ?thesis by (simp add: patch_channels_def delete_channels_def)
qed

theorem unknown_id_404_witness:
  "patch_channels (\<lambda>x. if x = ''7'' then Finite 7 else NaN) seeded ''abc''
       (Some (JString ''lobby'')) = (Throw 404 (Inr ''Channel not found''), seeded)
   \<and> delete_channels (\<lambda>x. if x = ''7'' then Finite 7 else NaN) seeded ''7'' =
       (Throw 404 (Inr ''Channel not found''), seeded)"
proof -
  let ?number = "\<lambda>x. if x = ''7'' then Finite 7 else NaN"
  have nan: "?number ''abc'' = NaN \<or> getChannel seeded (?number ''abc'') = None"
    by simp
  have unbound: "?number ''7'' = NaN \<or> getChannel seeded (?number ''7'') = None"
    by (simp add: seeded_eq getChannel_def)
  note unknown_id_404 [where to_number = ?number and idString = "''abc''"
      and name_param = "Some (JString ''lobby'')", OF reachable.start nan, THEN conjunct1]
    unknown_id_404 [where to_number = ?number and idString = "''7''",
      OF reachable.start unbound, THEN conjunct2]
  then show ?thesis by simp
qed

section \<open>Properties of the message route\<close>

lemma typeof_number_iff: "typeof x = ''number'' \<longleftrightarrow> (\<exists>n. x = Some (JNumber n))"
  by (cases x rule: typeof.cases) simp_all

lemma typeof_string_iff: "typeof x = ''string'' \<longleftrightarrow> (\<exists>u. x = Some (JString u))"
  by (cases x rule: typeof.cases) simp_all

lemma is_string_iff: "is_string x \<longleftrightarrow> (\<exists>u. x = Some (JString u))"
  by (cases x rule: is_string.cases) simp_all

lemma is_integer_number_iff:
  "is_integer_number x \<longleftrightarrow> (\<exists>n. x = Some (JNumber n) \<and> is_integer n)"
  by (cases x rule: is_integer_number.cases) simp_all

lemma isNewMessage_iff:
  "isNewMessage v \<longleftrightarrow>
     (\<exists>kvs n u t. v = JObject kvs \<and> map_of kvs ''type'' = Some (JString ''message'') \<and>
        map_of kvs ''channelId'' = Some (JNumber n) \<and>
        map_of kvs ''userName'' = Some (JString u) \<and> map_of kvs ''text'' = Some (JString t))"
  by (cases v) (auto simp: isNewMessage_def typeof_number_iff typeof_string_iff)

lemma has_message_shape_iff:
  "has_message_shape v \<longleftrightarrow>
     (\<exists>kvs n u t. v = JObject kvs \<and> map_of kvs ''type'' = Some (JString ''message'') \<and>
        map_of kvs ''channelId'' = Some (JNumber n) \<and> is_integer n \<and>
        map_of kvs ''userName'' = Some (JString u) \<and> map_of kvs ''text'' = Some (JString t))"
  by (cases v) (auto simp: is_integer_number_iff is_string_iff)

lemma isNewMessage_not_shape:
  "isNewMessage v \<Longrightarrow> \<not> has_message_shape v \<Longrightarrow> \<not> is_integer (channelId_of v)"
  unfolding has_message_shape_iff isNewMessage_iff
  by (auto simp: channelId_of_def)

lemma reachable_key_integer:
  assumes "reachable s" and "getChannel s i = Some c"
  shows "is_integer i"
proof -
  from assms(1) have "invariant s" by (rule reachable_invariant)
  then obtain n where ok: "entries_ok n (set (channels s))"
    by (auto simp: invariant_def)
  from assms(2) have "(i, c) \<in> set (channels s)"
    unfolding getChannel_def by (rule map_of_SomeD)
  from entries_ok_memD [OF ok this] obtain m where "i = Finite (of_nat m)" by blast
  then show ?thesis by simp
qed

lemma on_message_accepted:
  assumes "parse rawData = Inr (JObject kvs)"
    and "map_of kvs ''type'' = Some (JString ''message'')"
    and "map_of kvs ''channelId'' = Some (JNumber i)"
    and "map_of kvs ''userName'' = Some (JString u)"
    and "map_of kvs ''text'' = Some (JString t)"
    and "u \<noteq> []" and "t \<noteq> []"
    and "getChannel s i = Some channel"
  shows "on_message parse stringify clients ws s rawData =
           (push s i channel \<lparr>userName = u, text' = t\<rparr>,
            map (\<lambda>client. (client, stringify (JObject kvs))) clients)"
proof -
  have "isNewMessage (JObject kvs)"
    unfolding isNewMessage_iff using assms(2-5) by blast
  moreover have "channelId_of (JObject kvs) = i" "userName_of (JObject kvs) = u"
    "text_of (JObject kvs) = t"
    using assms(3-5) by (simp_all add: channelId_of_def userName_of_def text_of_def)
  ultimately show ?thesis
    using assms(1,6,7,8) by (simp add: on_message_def)
qed

text \<open>
  C3. In a registry the server can reach, a frame that is rejected (\<open>JSON.parse\<close> throws,
  or the parsed value lacks the shape of a message, or its \<open>userName\<close> or its \<open>text\<close> is
  empty, or its \<open>channelId\<close> is bound to no channel) has one effect only: a single frame,
  the serialised error object, is sent to the socket the frame came from. No other socket
  is sent anything and the registry, with every history in it, is unchanged.
\<close>

theorem rejected_message:
  assumes "reachable s"
    and "(\<exists>e. parse rawData = Inl e) \<or>
         (\<exists>data. parse rawData = Inr data \<and>
            (\<not> has_message_shape data \<or> userName_of data = [] \<or> text_of data = [] \<or>
             getChannel s (channelId_of data) = None))"
  shows "\<exists>m. on_message parse stringify clients ws s rawData =
           (s, [(ws, stringify (error_object m))])"
proof (cases "parse rawData")
  case (Inl e)
  then show ?thesis by (auto simp: on_message_def)
next
  case (Inr data)
  with assms(2) have bad: "\<not> has_message_shape data \<or> userName_of data = [] \<or>
      text_of data = [] \<or> getChannel s (channelId_of data) = None"
    by simp
  have none: "getChannel s (channelId_of data) = None"
    if "isNewMessage data" "userName_of data \<noteq> []" "text_of data \<noteq> []"
  proof (cases "has_message_shape data")
    case True
    with bad that show ?thesis by simp
  next
    case False
    with that(1) have "\<not> is_integer (channelId_of data)" by (rule isNewMessage_not_shape)
    with reachable_key_integer [OF assms(1)] show ?thesis
      by (cases "getChannel s (channelId_of data)") auto
  qed
  show ?thesis
    using none by (auto simp: on_message_def Inr)
qed

theorem rejected_message_witness:
  "on_message (\<lambda>raw. Inl ''Unexpected end of JSON input'')
     (\<lambda>v. case property v ''message'' of Some (JString m) \<Rightarrow> m | _ \<Rightarrow> [])
     [1, 2, 3] 2 seeded ''{'' =
     (seeded, [(2, ''Unexpected end of JSON input'')])
   \<and> on_message
     (\<lambda>raw. Inr (JObject [(''type'', JString ''message''), (''channelId'', JNumber (Finite 9)),
        (''userName'', JString ''al''), (''text'', JString ''hi'')]))
     (\<lambda>v. case property v ''message'' of Some (JString m) \<Rightarrow> m | _ \<Rightarrow> [])
     [1, 2, 3] 2 seeded ''raw'' =
     (seeded, [(2, ''Channel not found'')])
   \<and> on_message
     (\<lambda>raw. Inr (JObject [(''type'', JString ''message''), (''channelId'', JNumber (Finite 1)),
        (''userName'', JString ''al'')]))
     (\<lambda>v. case property v ''message'' of Some (JString m) \<Rightarrow> m | _ \<Rightarrow> [])
     [1, 2, 3] 2 seeded ''raw'' =
     (seeded, [(2, ''Invalid message format'')])"
proof -
  let ?show = "\<lambda>v. case property v ''message'' of Some (JString m) \<Rightarrow> m | _ \<Rightarrow> []"
  let ?unknown = "JObject [(''type'', JString ''message''), (''channelId'', JNumber (Finite 9)),
        (''userName'', JString ''al''), (''text'', JString ''hi'')]"
  let ?no_text = "JObject [(''type'', JString ''message''), (''channelId'', JNumber (Finite 1)),
        (''userName'', JString ''al'')]"
  have malformed: "(\<exists>e. (\<lambda>raw. Inl ''Unexpected end of JSON input'') ''{'' = Inl e) \<or>
      (\<exists>data. (\<lambda>raw. Inl ''Unexpected end of JSON input'') ''{'' = Inr data \<and>
         (\<not> has_message_shape data \<or> userName_of data = [] \<or> text_of data = [] \<or>
          getChannel seeded (channelId_of data) = None))"
    by simp
  have unknown: "(\<exists>e. (\<lambda>raw. Inr ?unknown) ''raw'' = Inl e) \<or>
      (\<exists>data. (\<lambda>raw. Inr ?unknown) ''raw'' = Inr data \<and>
         (\<not> has_message_shape data \<or> userName_of data = [] \<or> text_of data = [] \<or>
          getChannel seeded (channelId_of data) = None))"
    by (simp add: seeded_eq getChannel_def channelId_of_def)
  have no_text: "(\<exists>e. (\<lambda>raw. Inr ?no_text) ''raw'' = Inl e) \<or>
      (\<exists>data. (\<lambda>raw. Inr ?no_text) ''raw'' = Inr data \<and>
         (\<not> has_message_shape data \<or> userName_of data = [] \<or> text_of data = [] \<or>
          getChannel seeded (channelId_of data) = None))"
    by simp
  note rejected_message [where parse = "\<lambda>raw. Inl ''Unexpected end of JSON input''"
      and rawData = "''{''" and stringify = ?show and clients = "[1, 2, 3]" and ws = 2,
      OF reachable.start malformed]
    rejected_message [where parse = "\<lambda>raw. Inr ?unknown"
      and rawData = "''raw''" and stringify = ?show and clients = "[1, 2, 3]" and ws = 2,
      OF reachable.start unknown]
    rejected_message [where parse = "\<lambda>raw. Inr ?no_text"
      and rawData = "''raw''" and stringify = ?show and clients = "[1, 2, 3]" and ws = 2,
      OF reachable.start no_text]
  then show ?thesis
    by (simp add: seeded_eq on_message_def isNewMessage_def channelId_of_def
        userName_of_def text_of_def getChannel_def error_object_def)
qed

lemma push_getChannel:
  "getChannel (push s i c m) j =
     (if j = i then Some (c\<lparr>messages := messages c @ [m]\<rparr>) else getChannel s j)"
  by (simp add: push_def getChannel_def update_conv')


lemma one_frame_each:
  "distinct xs \<Longrightarrow> x \<in> set xs \<Longrightarrow>
     length (filter (\<lambda>f. fst f = x) (map (\<lambda>client. (client, y)) xs)) = 1"
  by (induction xs) (auto simp: filter_map o_def filter_empty_conv)

text \<open>
  C2. A frame that parses to an object with \<open>type\<close> \<open>message\<close>, a number \<open>channelId\<close>
  bound to a channel, and non-empty strings \<open>userName\<close> and \<open>text\<close> is accepted: the
  frames sent are the serialised payload, once to each socket of \<open>clients\<close> in their
  order; the channel's history grows by the one message \<open>{userName, text}\<close> at its end;
  every other channel, the order of the map and the counter are unchanged. The sender
  receives the frame when it is among the clients, and each client receives exactly one
  frame when the clients are distinct, as the members of the server's set are.
\<close>

theorem accepted_message:
  assumes "parse rawData = Inr (JObject kvs)"
    and "map_of kvs ''type'' = Some (JString ''message'')"
    and "map_of kvs ''channelId'' = Some (JNumber i)"
    and "map_of kvs ''userName'' = Some (JString u)"
    and "map_of kvs ''text'' = Some (JString t)"
    and "u \<noteq> []" and "t \<noteq> []"
    and "getChannel s i = Some channel"
  shows "snd (on_message parse stringify clients ws s rawData) =
           map (\<lambda>client. (client, stringify (JObject kvs))) clients
       \<and> getChannel (fst (on_message parse stringify clients ws s rawData)) i =
           Some (channel\<lparr>messages := messages channel @ [\<lparr>userName = u, text' = t\<rparr>]\<rparr>)
       \<and> (\<forall>j. j \<noteq> i \<longrightarrow>
             getChannel (fst (on_message parse stringify clients ws s rawData)) j =
             getChannel s j)
       \<and> map fst (channels (fst (on_message parse stringify clients ws s rawData))) =
           map fst (channels s)
       \<and> nextChannelId (fst (on_message parse stringify clients ws s rawData)) =
           nextChannelId s
       \<and> (ws \<in> set clients \<longrightarrow>
             (ws, stringify (JObject kvs)) \<in>
               set (snd (on_message parse stringify clients ws s rawData)))
       \<and> (distinct clients \<longrightarrow>
            (\<forall>client \<in> set clients.
               length (filter (\<lambda>f. fst f = client)
                 (snd (on_message parse stringify clients ws s rawData))) = 1))"
proof -
  have r: "on_message parse stringify clients ws s rawData =
           (push s i channel \<lparr>userName = u, text' = t\<rparr>,
            map (\<lambda>client. (client, stringify (JObject kvs))) clients)"
    using assms by (rule on_message_accepted)
  let ?s' = "push s i channel \<lparr>userName = u, text' = t\<rparr>"
  let ?sent = "map (\<lambda>client. (client, stringify (JObject kvs))) clients"
  from assms(8) have "i \<in> fst ` set (channels s)"
    unfolding getChannel_def by (metis map_of_eq_None_iff option.distinct(1))
  then have keys: "map fst (channels ?s') = map fst (channels s)"
    by (simp add: push_def update_keys)
  have next': "nextChannelId ?s' = nextChannelId s"
    by (simp add: push_def)
  have bound: "getChannel ?s' i =
      Some (channel\<lparr>messages := messages channel @ [\<lparr>userName = u, text' = t\<rparr>]\<rparr>)"
    by (simp add: push_getChannel)
  have others: "\<forall>j. j \<noteq> i \<longrightarrow> getChannel ?s' j = getChannel s j"
    by (simp add: push_getChannel)
  have once: "distinct clients \<longrightarrow>
      (\<forall>client \<in> set clients. length (filter (\<lambda>f. fst f = client) ?sent) = 1)"
    by (intro impI ballI) (rule one_frame_each)
  have sender: "ws \<in> set clients \<longrightarrow> (ws, stringify (JObject kvs)) \<in> set ?sent"
    by auto
  show ?thesis
    unfolding r fst_conv snd_conv
    by (intro conjI refl bound others keys next' sender once)
qed


theorem accepted_message_witness:
  "on_message
     (\<lambda>raw. Inr (JObject [(''type'', JString ''message''), (''channelId'', JNumber (Finite 1)),
        (''userName'', JString ''al''), (''text'', JString ''hi'')]))
     (\<lambda>v. userName_of v @ '': '' @ text_of v) [1, 2, 3] 2 seeded ''raw'' =
   (\<lparr>channels =
       [(Finite 1, \<lparr>id' = Finite 1, name = ''general'',
           messages = [\<lparr>userName = ''al'', text' = ''hi''\<rparr>]\<rparr>),
        (Finite 2, \<lparr>id' = Finite 2, name = ''random'', messages = []\<rparr>)],
      nextChannelId = Finite 3\<rparr>,
    [(1, ''al: hi''), (2, ''al: hi''), (3, ''al: hi'')])"
proof -
  let ?kvs = "[(''type'', JString ''message''), (''channelId'', JNumber (Finite 1)),
        (''userName'', JString ''al''), (''text'', JString ''hi'')]"
  let ?general = "\<lparr>id' = Finite 1, name = ''general'', messages = []\<rparr>"
  have bound: "getChannel seeded (Finite 1) = Some ?general"
    by (simp add: seeded_eq getChannel_def)
  have p_type: "map_of ?kvs ''type'' = Some (JString ''message'')"
    and p_channelId: "map_of ?kvs ''channelId'' = Some (JNumber (Finite 1))"
    and p_userName: "map_of ?kvs ''userName'' = Some (JString ''al'')"
    and p_text: "map_of ?kvs ''text'' = Some (JString ''hi'')"
    and nonempty: "''al'' \<noteq> []" "''hi'' \<noteq> []"
    by simp_all
  note accepted_message [where parse = "\<lambda>raw. Inr (JObject ?kvs)" and rawData = "''raw''"
      and stringify = "\<lambda>v. userName_of v @ '': '' @ text_of v" and clients = "[1, 2, 3]"
      and ws = 2, OF refl p_type p_channelId p_userName p_text nonempty bound]
  then show ?thesis
    by (simp add: seeded_eq on_message_def isNewMessage_def channelId_of_def
        userName_of_def text_of_def push_def getChannel_def)
qed

text \<open>
  C9. An accepted payload with a property \<open>k\<close> beyond the four required ones changes the
  registry exactly as the payload of the four required properties alone does: the message
  \<open>{userName, text}\<close> is appended to the channel's history. The frame sent to every
  client serialises the whole parsed object, which has the property \<open>k\<close>, and not the
  object of the four required properties, which lacks it.
\<close>

theorem extra_properties_relayed:
  assumes "parse rawData = Inr (JObject kvs)"
    and "map_of kvs ''type'' = Some (JString ''message'')"
    and "map_of kvs ''channelId'' = Some (JNumber i)"
    and "map_of kvs ''userName'' = Some (JString u)"
    and "map_of kvs ''text'' = Some (JString t)"
    and "u \<noteq> []" and "t \<noteq> []"
    and "getChannel s i = Some channel"
    and "map_of kvs k = Some v"
    and "k \<notin> {''type'', ''channelId'', ''userName'', ''text''}"
  shows "fst (on_message parse stringify clients ws s rawData) =
           fst (on_message
             (\<lambda>raw. Inr (JObject [(''type'', JString ''message''), (''channelId'', JNumber i),
                (''userName'', JString u), (''text'', JString t)]))
             stringify clients ws s rawData)
       \<and> getChannel (fst (on_message parse stringify clients ws s rawData)) i =
           Some (channel\<lparr>messages := messages channel @ [\<lparr>userName = u, text' = t\<rparr>]\<rparr>)
       \<and> snd (on_message parse stringify clients ws s rawData) =
           map (\<lambda>client. (client, stringify (JObject kvs))) clients
       \<and> property (JObject kvs) k = Some v
       \<and> property (JObject [(''type'', JString ''message''), (''channelId'', JNumber i),
                (''userName'', JString u), (''text'', JString t)]) k = None"
proof -
  have r: "on_message parse stringify clients ws s rawData =
           (push s i channel \<lparr>userName = u, text' = t\<rparr>,
            map (\<lambda>client. (client, stringify (JObject kvs))) clients)"
    using assms(1-8) by (rule on_message_accepted)
  let ?four = "[(''type'', JString ''message''), (''channelId'', JNumber i),
                (''userName'', JString u), (''text'', JString t)]"
  have r4: "on_message (\<lambda>raw. Inr (JObject ?four)) stringify clients ws s rawData =
           (push s i channel \<lparr>userName = u, text' = t\<rparr>,
            map (\<lambda>client. (client, stringify (JObject ?four))) clients)"
    using assms(6-8) by (intro on_message_accepted) simp_all
  show ?thesis
    unfolding r r4 fst_conv snd_conv
    using assms(9,10) by (simp add: push_getChannel)
qed

theorem extra_properties_relayed_witness:
  "on_message
     (\<lambda>raw. Inr (JObject [(''type'', JString ''message''), (''channelId'', JNumber (Finite 1)),
        (''userName'', JString ''al''), (''text'', JString ''hi''),
        (''role'', JString ''admin'')]))
     (\<lambda>v. case property v ''role'' of Some (JString r) \<Rightarrow> r | _ \<Rightarrow> ''none'')
     [1, 2, 3] 2 seeded ''raw'' =
   (\<lparr>channels =
       [(Finite 1, \<lparr>id' = Finite 1, name = ''general'',
           messages = [\<lparr>userName = ''al'', text' = ''hi''\<rparr>]\<rparr>),
        (Finite 2, \<lparr>id' = Finite 2, name = ''random'', messages = []\<rparr>)],
      nextChannelId = Finite 3\<rparr>,
    [(1, ''admin''), (2, ''admin''), (3, ''admin'')])"
proof -
  let ?kvs = "[(''type'', JString ''message''), (''channelId'', JNumber (Finite 1)),
        (''userName'', JString ''al''), (''text'', JString ''hi''),
        (''role'', JString ''admin'')]"
  let ?general = "\<lparr>id' = Finite 1, name = ''general'', messages = []\<rparr>"
  have bound: "getChannel seeded (Finite 1) = Some ?general"
    by (simp add: seeded_eq getChannel_def)
  have p_type: "map_of ?kvs ''type'' = Some (JString ''message'')"
    and p_channelId: "map_of ?kvs ''channelId'' = Some (JNumber (Finite 1))"
    and p_userName: "map_of ?kvs ''userName'' = Some (JString ''al'')"
    and p_text: "map_of ?kvs ''text'' = Some (JString ''hi'')"
    and nonempty: "''al'' \<noteq> []" "''hi'' \<noteq> []"
    and role: "map_of ?kvs ''role'' = Some (JString ''admin'')"
    and extra: "''role'' \<notin> {''type'', ''channelId'', ''userName'', ''text''}"
    by simp_all
  note extra_properties_relayed [where parse = "\<lambda>raw. Inr (JObject ?kvs)"
      and rawData = "''raw''"
      and stringify = "\<lambda>v. case property v ''role'' of Some (JString r) \<Rightarrow> r | _ \<Rightarrow> ''none''"
      and clients = "[1, 2, 3]" and ws = 2,
      OF refl p_type p_channelId p_userName p_text nonempty bound role extra]
  then show ?thesis
    by (simp add: seeded_eq on_message_def isNewMessage_def channelId_of_def
        userName_of_def text_of_def push_def getChannel_def)
qed

section \<open>Properties of runs\<close>

lemma less_number_irrefl: "\<not> less_number k k"
  by (cases k) simp_all

lemma sorted_less_number_distinct: "sorted_wrt less_number ids \<Longrightarrow> distinct ids"
  by (induction ids) (auto simp: less_number_irrefl)

lemma perform_counter:
  assumes "nextChannelId s = Finite (of_nat n)" and "perform c s = (ids, s')"
  shows "(ids = [] \<and> nextChannelId s' = Finite (of_nat n)) \<or>
         (ids = [Finite (of_nat n)] \<and>
          nextChannelId s' = Finite (of_nat (if n < 2 ^ 53 then Suc n else n)))"
proof (cases c)
  case (Create nm)
  show ?thesis
  proof (cases "validateChannelName s nm")
    case (Inl e)
    with Create assms show ?thesis by (auto simp: create_def)
  next
    case (Inr u)
    have "plus_one (nextChannelId s) = Finite (of_nat (if n < 2 ^ 53 then Suc n else n))"
      unfolding assms(1) by (rule plus_one_of_nat)
    with Inr Create assms show ?thesis
      by (auto simp: create_def issueNextChannelId_def Let_def)
  qed
next
  case (ChangeName i nm)
  with assms show ?thesis
    by (auto simp: changeName_def Let_def split: option.splits sum.splits)
next
  case (DeleteChannel i)
  with assms show ?thesis by (auto simp: deleteChannel_def)
qed

lemma run_counter:
  assumes "nextChannelId s = Finite (of_nat n)" and "run cs s = (ids, s')"
  shows "\<exists>n'. nextChannelId s' = Finite (of_nat n') \<and> n \<le> n' \<and>
           (n' < 2 ^ 53 \<longrightarrow> sorted_wrt less_number ids \<and>
              (\<forall>k \<in> set ids. \<exists>m. k = Finite (of_nat m) \<and> n \<le> m \<and> m < n'))"
  using assms
proof (induction cs arbitrary: s n ids s')
  case Nil
  then show ?case by auto
next
  case (Cons c cs)
  obtain issued s1 where p: "perform c s = (issued, s1)" by (cases "perform c s")
  obtain later s2 where r: "run cs s1 = (later, s2)" by (cases "run cs s1")
  from Cons.prems(2) p r have ids: "ids = issued @ later" and s': "s' = s2" by simp_all
  from perform_counter [OF Cons.prems(1) p] show ?case
  proof
    assume a: "issued = [] \<and> nextChannelId s1 = Finite (of_nat n)"
    from Cons.IH [OF conjunct2 [OF a] r] a ids s' show ?thesis by auto
  next
    define n1 where "n1 = (if n < 2 ^ 53 then Suc n else n)"
    assume "issued = [Finite (of_nat n)] \<and>
        nextChannelId s1 = Finite (of_nat (if n < 2 ^ 53 then Suc n else n))"
    then have issued: "issued = [Finite (of_nat n)]"
      and s1: "nextChannelId s1 = Finite (of_nat n1)"
      by (simp_all add: n1_def)
    from Cons.IH [OF s1 r] obtain n'
      where n': "nextChannelId s2 = Finite (of_nat n')" "n1 \<le> n'"
        and below: "n' < 2 ^ 53 \<longrightarrow> sorted_wrt less_number later \<and>
          (\<forall>k \<in> set later. \<exists>m. k = Finite (of_nat m) \<and> n1 \<le> m \<and> m < n')"
      by blast
    have le: "n \<le> n'" using n'(2) by (simp add: n1_def split: if_splits)
    have "sorted_wrt less_number ids \<and>
        (\<forall>k \<in> set ids. \<exists>m. k = Finite (of_nat m) \<and> n \<le> m \<and> m < n')"
      if small: "n' < 2 ^ 53"
    proof -
      from small le have "n < 2 ^ 53" by simp
      then have n1: "n1 = Suc n" by (simp add: n1_def)
      from below small have sorted: "sorted_wrt less_number later"
        and later: "\<forall>k \<in> set later. \<exists>m. k = Finite (of_nat m) \<and> Suc n \<le> m \<and> m < n'"
        by (simp_all add: n1)
      have above: "\<forall>k \<in> set later. less_number (Finite (of_nat n)) k"
      proof
        fix k assume "k \<in> set later"
        with later obtain m where "k = Finite (of_nat m)" "Suc n \<le> m" by blast
        then show "less_number (Finite (of_nat n)) k" by simp
      qed
      have weaker: "\<forall>k \<in> set later. \<exists>m. k = Finite (of_nat m) \<and> n \<le> m \<and> m < n'"
        using later by (meson Suc_leD)
      have first: "n < n'" using n'(2) n1 by simp
      from sorted above weaker first show ?thesis
        by (auto simp: ids issued)
    qed
    with n'(1) le s' show ?thesis by blast
  qed
qed

lemma snd_perform_Create: "snd (perform (Create nm) s) = snd (create s nm)"
  by (simp add: case_prod_unfold split: sum.splits)

lemma snd_run_Cons: "snd (run (c # cs) s) = snd (run cs (snd (perform c s)))"
  by (simp add: case_prod_unfold Let_def)

lemma reachable_perform: "reachable s \<Longrightarrow> reachable (snd (perform c s))"
proof (cases c)
  case (Create nm)
  assume "reachable s"
  then have "reachable (snd (create s nm))" by (rule reachable.created)
  then show ?thesis using Create by (simp only: snd_perform_Create)
next
  case (ChangeName i nm)
  assume "reachable s"
  then show ?thesis using ChangeName by (simp add: reachable.renamed)
next
  case (DeleteChannel i)
  assume "reachable s"
  then show ?thesis using DeleteChannel by (simp add: reachable.deleted)
qed

lemma reachable_run: "reachable s \<Longrightarrow> reachable (snd (run cs s))"
proof (induction cs arbitrary: s)
  case Nil
  then show ?case by simp
next
  case (Cons c cs)
  from Cons.IH [OF reachable_perform [OF Cons.prems, of c]] show ?case
    by (simp only: snd_run_Cons)
qed

lemma run_startup:
  "run (startup @ cs) fresh =
     (Finite 1 # Finite 2 # fst (run cs seeded), snd (run cs seeded))"
  by (simp add: startup_def seeded_def create_def fresh_def validateChannelName_def
      matches_pattern_def in_class_def issueNextChannelId_def Let_def split: prod.splits)


lemma recreate_after_delete:
  assumes "reachable s" and "getChannel s i = Some c"
  shows "create (snd (deleteChannel s i)) (name c) =
           (Inr \<lparr>id' = nextChannelId s, name = name c, messages = []\<rparr>,
            s\<lparr>nextChannelId := plus_one (nextChannelId s),
              channels := AList.update (nextChannelId s)
                \<lparr>id' = nextChannelId s, name = name c, messages = []\<rparr>
                (AList.delete i (channels s))\<rparr>)"
proof -
  from assms(1) have "invariant s" by (rule reachable_invariant)
  then obtain n where ok: "entries_ok n (set (channels s))"
    by (auto simp: invariant_def)
  from assms(2) have mem: "(i, c) \<in> set (channels s)"
    unfolding getChannel_def by (rule map_of_SomeD)
  have valid: "valid_name (name c)"
    using entries_ok_memD [OF ok mem] by simp
  have unused: "\<forall>p \<in> set (channels (snd (deleteChannel s i))). name (snd p) \<noteq> name c"
  proof
    fix p assume "p \<in> set (channels (snd (deleteChannel s i)))"
    then have p: "(fst p, snd p) \<in> set (channels s)" and ne: "fst p \<noteq> i"
      by (simp_all add: deleteChannel_def set_delete)
    show "name (snd p) \<noteq> name c"
    proof
      assume "name (snd p) = name c"
      with entries_ok_uniqD [OF ok p mem] ne show False by simp
    qed
  qed
  have "validateChannelName (snd (deleteChannel s i)) (name c) = Inr ()"
    using valid unused by (simp add: validate_Inr_iff)
  then show ?thesis
    by (simp add: create_def issueNextChannelId_def Let_def deleteChannel_def)
qed

lemma create_counter:
  "nextChannelId (snd (create s nm)) = nextChannelId s \<or>
   nextChannelId (snd (create s nm)) = plus_one (nextChannelId s)"
  by (cases "validateChannelName s nm") (simp_all add: create_def issueNextChannelId_def Let_def)

lemma changeName_counter: "nextChannelId (snd (changeName s i nm)) = nextChannelId s"
  by (simp add: changeName_def Let_def split: option.splits sum.splits)

lemma on_message_counter:
  "nextChannelId (fst (on_message parse stringify clients ws s rawData)) = nextChannelId s"
  by (simp add: on_message_def push_def split: sum.splits option.splits)

text \<open>The counter of a registry the server can reach is an integer from 1 to \<open>2 ^ 53\<close>.\<close>

lemma reachable_counter:
  "reachable s \<Longrightarrow> \<exists>n. 0 < n \<and> n \<le> 2 ^ 53 \<and> nextChannelId s = Finite (of_nat n)"
proof (induction rule: reachable.induct)
  case start
  have "(0::nat) < 3 \<and> (3::nat) \<le> 2 ^ 53 \<and> nextChannelId seeded = Finite (of_nat 3)"
    by (simp add: seeded_eq)
  then show ?case by blast
next
  case (created s nm)
  then obtain n where n: "0 < n" "n \<le> 2 ^ 53" "nextChannelId s = Finite (of_nat n)"
    by blast
  define n' where "n' = (if n < 2 ^ 53 then Suc n else n)"
  have n': "0 < n'" "n' \<le> 2 ^ 53" using n(1,2) by (simp_all add: n'_def)
  have "plus_one (nextChannelId s) = Finite (of_nat n')"
    unfolding n(3) n'_def by (rule plus_one_of_nat)
  with create_counter [of s nm] n n' show ?case by metis
next
  case (renamed s i nm)
  then show ?case by (simp only: changeName_counter)
next
  case (deleted s i)
  then show ?case by (simp add: deleteChannel_def)
next
  case (received s parse stringify clients ws rawData)
  then show ?case by (simp only: on_message_counter)
qed

lemma counter_reachable:
  assumes "3 \<le> m" and "m \<le> 2 ^ 53"
  shows "reachable \<lparr>channels = channels seeded, nextChannelId = Finite (of_nat m)\<rparr>"
  using assms
proof (induction m rule: nat_induct_at_least)
  case base
  have "\<lparr>channels = channels seeded, nextChannelId = Finite (of_nat 3)\<rparr> = seeded"
    by (simp add: seeded_eq)
  then show ?case by (simp only: reachable.start)
next
  case (Suc n)
  let ?s = "\<lparr>channels = channels seeded, nextChannelId = Finite (of_nat n)\<rparr>"
  from Suc have r: "reachable ?s" and small: "n < 2 ^ 53" by simp_all
  have one: "Finite (of_nat n) \<noteq> Finite 1"
    using Suc.hyps by simp
  have two: "Finite (of_nat n) \<noteq> Finite 2"
    using Suc.hyps by simp
  have next': "plus_one (Finite (of_nat n)) = Finite (of_nat (Suc n))"
    using small by (simp only: plus_one_of_nat if_True)
  have step: "snd (deleteChannel (snd (create ?s ''a'')) (Finite (of_nat n))) =
      \<lparr>channels = channels seeded, nextChannelId = Finite (of_nat (Suc n))\<rparr>"
    using one two
    by (simp add: create_def validateChannelName_def matches_pattern_def in_class_def
        issueNextChannelId_def Let_def deleteChannel_def seeded_eq next'
        del: plus_one.simps of_nat_Suc)
  have "reachable (snd (deleteChannel (snd (create ?s ''a'')) (Finite (of_nat n))))"
    by (rule reachable.deleted [OF reachable.created [OF r]])
  then show ?case by (simp only: step)
qed

text \<open>
  C7. Run the two seeding calls and then any sequence of calls of \<open>create\<close>,
  \<open>changeName\<close> and \<open>deleteChannel\<close> on a new registry, and let the counter be below
  \<open>2 ^ 53\<close> at the end. The identifiers issued, in the order of issue, are strictly
  increasing, hence pairwise distinct, and all lie below the counter. For every channel
  live at the end, deleting it and creating a channel of its name succeeds and issues the
  counter's value, an identifier above every one issued before.
\<close>

theorem identifiers_never_reused:
  assumes "run (startup @ cs) fresh = (ids, s)"
    and "less_number (nextChannelId s) (Finite (2 ^ 53))"
  shows "sorted_wrt less_number ids \<and> distinct ids
       \<and> (\<forall>k \<in> set ids. less_number k (nextChannelId s))
       \<and> (\<forall>i c. getChannel s i = Some c \<longrightarrow>
            (\<exists>s'. create (snd (deleteChannel s i)) (name c) =
               (Inr \<lparr>id' = nextChannelId s, name = name c, messages = []\<rparr>, s')))"
proof -
  have one: "nextChannelId fresh = Finite (of_nat 1)" by (simp add: fresh_def)
  from run_counter [OF one assms(1)] obtain n'
    where n': "nextChannelId s = Finite (of_nat n')"
      and below: "n' < 2 ^ 53 \<longrightarrow> sorted_wrt less_number ids \<and>
        (\<forall>k \<in> set ids. \<exists>m. k = Finite (of_nat m) \<and> 1 \<le> m \<and> m < n')"
    by blast
  from assms(2) have "(of_nat n' :: rat) < 2 ^ 53" by (simp add: n')
  then have "n' < 2 ^ 53"
    by simp
  with below have sorted: "sorted_wrt less_number ids"
    and issued: "\<forall>k \<in> set ids. \<exists>m. k = Finite (of_nat m) \<and> 1 \<le> m \<and> m < n'"
    by simp_all
  have under: "\<forall>k \<in> set ids. less_number k (nextChannelId s)"
  proof
    fix k assume "k \<in> set ids"
    with issued obtain m where "k = Finite (of_nat m)" "m < n'" by blast
    then show "less_number k (nextChannelId s)" by (simp add: n')
  qed
  from assms(1) have "s = snd (run cs seeded)" by (simp add: run_startup)
  then have "reachable s" by (simp add: reachable_run reachable.start)
  then have again: "\<forall>i c. getChannel s i = Some c \<longrightarrow>
            (\<exists>s'. create (snd (deleteChannel s i)) (name c) =
               (Inr \<lparr>id' = nextChannelId s, name = name c, messages = []\<rparr>, s'))"
    by (simp add: recreate_after_delete)
  from sorted sorted_less_number_distinct [OF sorted] under again show ?thesis by blast
qed

theorem identifiers_never_reused_witness:
  "run (startup @ [Create ''dev'', DeleteChannel (Finite 3), Create ''dev'']) fresh =
     ([Finite 1, Finite 2, Finite 3, Finite 4],
      \<lparr>channels =
         [(Finite 1, \<lparr>id' = Finite 1, name = ''general'', messages = []\<rparr>),
          (Finite 2, \<lparr>id' = Finite 2, name = ''random'', messages = []\<rparr>),
          (Finite 4, \<lparr>id' = Finite 4, name = ''dev'', messages = []\<rparr>)],
       nextChannelId = Finite 5\<rparr>)
   \<and> less_number (Finite 5) (Finite (2 ^ 53))
   \<and> sorted_wrt less_number [Finite 1, Finite 2, Finite 3, Finite 4]
   \<and> (\<exists>s'. create
         (snd (deleteChannel
           \<lparr>channels =
              [(Finite 1, \<lparr>id' = Finite 1, name = ''general'', messages = []\<rparr>),
               (Finite 2, \<lparr>id' = Finite 2, name = ''random'', messages = []\<rparr>),
               (Finite 4, \<lparr>id' = Finite 4, name = ''dev'', messages = []\<rparr>)],
            nextChannelId = Finite 5\<rparr> (Finite 4))) ''dev'' =
         (Inr \<lparr>id' = Finite 5, name = ''dev'', messages = []\<rparr>, s'))"
proof -
  let ?s = "\<lparr>channels =
         [(Finite 1, \<lparr>id' = Finite 1, name = ''general'', messages = []\<rparr>),
          (Finite 2, \<lparr>id' = Finite 2, name = ''random'', messages = []\<rparr>),
          (Finite 4, \<lparr>id' = Finite 4, name = ''dev'', messages = []\<rparr>)],
       nextChannelId = Finite 5\<rparr>"
  have run: "run (startup @ [Create ''dev'', DeleteChannel (Finite 3), Create ''dev'']) fresh =
      ([Finite 1, Finite 2, Finite 3, Finite 4], ?s)"
    by (simp add: run_startup seeded_eq create_def validateChannelName_def matches_pattern_def
        in_class_def issueNextChannelId_def deleteChannel_def Let_def)
  have small: "less_number (nextChannelId ?s) (Finite (2 ^ 53))"
    by simp
  have live: "getChannel ?s (Finite 4) = Some \<lparr>id' = Finite 4, name = ''dev'', messages = []\<rparr>"
    by (simp add: getChannel_def)
  note never = identifiers_never_reused [OF run small]
  from never have sorted: "sorted_wrt less_number [Finite 1, Finite 2, Finite 3, Finite 4]"
    by (rule conjunct1)
  from never live have "\<exists>s'. create (snd (deleteChannel ?s (Finite 4)))
        (name \<lparr>id' = Finite 4, name = ''dev'', messages = []\<rparr>) =
      (Inr \<lparr>id' = nextChannelId ?s,
            name = name \<lparr>id' = Finite 4, name = ''dev'', messages = []\<rparr>,
            messages = []\<rparr>, s')"
    by blast
  then have again: "\<exists>s'. create (snd (deleteChannel ?s (Finite 4))) ''dev'' =
      (Inr \<lparr>id' = Finite 5, name = ''dev'', messages = []\<rparr>, s')"
    by simp
  from small have small': "less_number (Finite 5) (Finite (2 ^ 53))" by simp
  from run small' sorted again show ?thesis by (intro conjI)
qed

text \<open>
  Without the bound the identifiers repeat. The registry with the two seeded channels and
  the counter at \<open>2 ^ 53\<close> is one the server can reach; there two calls of \<open>create\<close> both
  succeed and both return the identifier \<open>2 ^ 53\<close>, the counter stays where it is, and
  the second channel takes the place of the first in the map.
\<close>

theorem identifier_reissued_at_2_53:
  "reachable
     \<lparr>channels =
        [(Finite 1, \<lparr>id' = Finite 1, name = ''general'', messages = []\<rparr>),
         (Finite 2, \<lparr>id' = Finite 2, name = ''random'', messages = []\<rparr>)],
      nextChannelId = Finite (2 ^ 53)\<rparr>
   \<and> run [Create ''a'', Create ''b'']
       \<lparr>channels =
          [(Finite 1, \<lparr>id' = Finite 1, name = ''general'', messages = []\<rparr>),
           (Finite 2, \<lparr>id' = Finite 2, name = ''random'', messages = []\<rparr>)],
        nextChannelId = Finite (2 ^ 53)\<rparr> =
     ([Finite (2 ^ 53), Finite (2 ^ 53)],
      \<lparr>channels =
         [(Finite 1, \<lparr>id' = Finite 1, name = ''general'', messages = []\<rparr>),
          (Finite 2, \<lparr>id' = Finite 2, name = ''random'', messages = []\<rparr>),
          (Finite (2 ^ 53), \<lparr>id' = Finite (2 ^ 53), name = ''b'', messages = []\<rparr>)],
       nextChannelId = Finite (2 ^ 53)\<rparr>)
   \<and> \<not> less_number (Finite (2 ^ 53)) (Finite (2 ^ 53))"
proof -
  have "reachable \<lparr>channels = channels seeded, nextChannelId = Finite (of_nat (2 ^ 53))\<rparr>"
    by (rule counter_reachable) simp_all
  then have "reachable
     \<lparr>channels =
        [(Finite 1, \<lparr>id' = Finite 1, name = ''general'', messages = []\<rparr>),
         (Finite 2, \<lparr>id' = Finite 2, name = ''random'', messages = []\<rparr>)],
      nextChannelId = Finite (2 ^ 53)\<rparr>"
    by (simp add: seeded_eq)
  then show ?thesis
    by (simp add: create_def validateChannelName_def matches_pattern_def
        in_class_def issueNextChannelId_def Let_def)
qed

end
